theory Spec2Isabelle
  imports Main
begin

section \<open>Strings and paths\<close>

text \<open>
  Python's \<open>s.replace(old, new)\<close>: every non-overlapping occurrence of \<open>old\<close>, scanning
  from the left, is replaced. With an empty \<open>old\<close>, \<open>new\<close> is put before every character
  and at the end.
\<close>

function str_replace :: "string \<Rightarrow> string \<Rightarrow> string \<Rightarrow> string" where
  "str_replace old new s =
     (if old = [] then new @ concat (map (\<lambda>c. c # new) s)
      else if s = [] then []
      else if take (length old) s = old
        then new @ str_replace old new (drop (length old) s)
      else hd s # str_replace old new (tl s))"
  by pat_completeness auto
termination
  by (relation "measure (\<lambda>(old, new, s). length s)") auto

declare str_replace.simps [simp del]

text \<open>The prefix-stripping the specification speaks of (Python's \<open>removeprefix\<close>).\<close>

definition strip_prefix :: "string \<Rightarrow> string \<Rightarrow> string" where
  "strip_prefix p s = (if take (length p) s = p then drop (length p) s else s)"

text \<open>\<open>occurs old s\<close>: \<open>old\<close> is a contiguous part of \<open>s\<close>.\<close>

fun occurs :: "string \<Rightarrow> string \<Rightarrow> bool" where
  "occurs old [] = (old = [])"
| "occurs old (c # cs) = (take (length old) (c # cs) = old \<or> occurs old cs)"

text \<open>\<open>Path(a) / b\<close> for a normalised absolute path \<open>a\<close> and a relative \<open>b\<close>.\<close>

definition joinp :: "string \<Rightarrow> string \<Rightarrow> string" where
  "joinp a b = (if a = ''/'' then a @ b else a @ ''/'' @ b)"

section \<open>The locator: \<open>find_database\<close>\<close>

text \<open>
  The file system as the locator sees it. \<open>Path.exists()\<close> answers yes or no, or raises
  when the path cannot be examined (a permission error); \<open>glob.glob\<close> returns the list
  of matches of a pattern, in the order of its traversal.
\<close>

datatype probe = Present | Absent | Denied

datatype exn =
    PermissionError string
  | NoSuchTable string
  | NoSuchColumn string
  | IntegrityError string
  | ProgrammingError
  | StoreFault string
  | CannotOpen string
  | TypeError
  | IndexError

record filesystem =
  home :: string
  cwd :: string
  exists :: "string \<Rightarrow> probe"
  glob :: "string \<Rightarrow> string list"

definition possible_paths :: "('a filesystem_scheme) \<Rightarrow> string list" where
  "possible_paths fs =
     [ joinp (home fs) ''.local/share/com.zap-vault/vault.db'',
       joinp (home fs) ''.local/share/zap-vault/vault.db'',
       joinp (home fs) ''.config/zap-vault/vault.db'',
       joinp ''/tmp'' ''vault.db'',
       joinp (cwd fs) ''vault.db'',
       joinp (joinp (cwd fs) ''src-tauri'') ''vault.db'' ]"

definition search_patterns :: "('a filesystem_scheme) \<Rightarrow> string list" where
  "search_patterns fs =
     [ joinp (home fs) ''.local/share/**/vault.db'',
       joinp (home fs) ''.config/**/vault.db'',
       ''/tmp/**/vault.db'',
       joinp (cwd fs) ''**/vault.db'' ]"

text \<open>The second loop: the first match of the first pattern that matches anything.\<close>

fun search_with_patterns :: "('a filesystem_scheme) \<Rightarrow> string list \<Rightarrow> string option" where
  "search_with_patterns fs [] = None"
| "search_with_patterns fs (pattern # rest) =
     (case glob fs pattern of
        [] \<Rightarrow> search_with_patterns fs rest
      | m # _ \<Rightarrow> Some m)"

text \<open>
  The first loop, followed by the second once every exact path is absent. \<open>Inl\<close> is an
  exception leaving the function, \<open>Inr None\<close> is Python's \<open>None\<close>.
\<close>

fun check_exact_paths :: "('a filesystem_scheme) \<Rightarrow> string list \<Rightarrow> exn + string option" where
  "check_exact_paths fs [] = Inr (search_with_patterns fs (search_patterns fs))"
| "check_exact_paths fs (path # rest) =
     (case exists fs path of
        Present \<Rightarrow> Inr (Some path)
      | Absent \<Rightarrow> check_exact_paths fs rest
      | Denied \<Rightarrow> Inl (PermissionError path))"

definition find_database :: "('a filesystem_scheme) \<Rightarrow> exn + string option" where
  "find_database fs = check_exact_paths fs (possible_paths fs)"


section \<open>The store\<close>

text \<open>
  The store is an SQLite database file; its engine is not part of the scripts and is
  modelled here as far as the scripts' statements use it. A value is \<open>NULL\<close>, an integer,
  a text or a blob (floating-point values are left out). A row gives each column name its
  value. A table has its columns as \<open>PRAGMA table_info\<close> lists them (name, declared type,
  \<open>NOT NULL\<close>, default, position in the primary key or 0), the column sets of its
  \<open>UNIQUE\<close> constraints, and its rows in the order a plain scan returns them. The store
  lists its tables in the order of the catalog \<open>sqlite_master\<close>.

  The declarations of the tables are not part of the scripts: they come with the store,
  and every property below is stated for whatever columns and keys its tables declare.

  Left out of the model: conversions between integers and texts by column affinity,
  names that differ in case only, \<open>CHECK\<close> and foreign-key constraints, triggers, and
  defaults that are expressions. On a tie, \<open>ORDER BY\<close> keeps the order of the scan.
\<close>

datatype sqlval = Null | Integer int | Text string | Blob string

type_synonym row = "string \<Rightarrow> sqlval"

record column =
  c_name :: string
  c_type :: string
  c_notnull :: bool
  c_dflt :: sqlval
  c_pk :: nat

record table =
  t_cols :: "column list"
  t_unique :: "string list list"
  t_rows :: "row list"

type_synonym store = "(string \<times> table) list"

definition col_names :: "table \<Rightarrow> string list" where
  "col_names t = map c_name (t_cols t)"

text \<open>The key column sets of a table: its primary key, if it has one, and its \<open>UNIQUE\<close> sets.\<close>

definition key_sets :: "table \<Rightarrow> string list list" where
  "key_sets t =
     (let pk = map c_name (filter (\<lambda>c. 0 < c_pk c) (t_cols t))
      in (if pk = [] then [] else [pk]) @ t_unique t)"

text \<open>
  Two rows conflict on a key set when they agree on all its columns; a \<open>NULL\<close> agrees with
  nothing.
\<close>

definition agree_on :: "string list \<Rightarrow> row \<Rightarrow> row \<Rightarrow> bool" where
  "agree_on K new old = (K \<noteq> [] \<and> list_all (\<lambda>c. old c \<noteq> Null \<and> old c = new c) K)"

definition conflicts :: "table \<Rightarrow> row \<Rightarrow> row \<Rightarrow> bool" where
  "conflicts t new old = list_ex (\<lambda>K. agree_on K new old) (key_sets t)"

subsection \<open>Ordering of values\<close>

text \<open>
  \<open>ORDER BY\<close> puts \<open>NULL\<close> first, then integers, then texts, then blobs; texts and blobs
  compare byte by byte.
\<close>

fun rank :: "sqlval \<Rightarrow> nat" where
  "rank Null = 0"
| "rank (Integer i) = 1"
| "rank (Text s) = 2"
| "rank (Blob b) = 3"

fun bytes_less :: "string \<Rightarrow> string \<Rightarrow> bool" where
  "bytes_less [] [] = False"
| "bytes_less [] (y # ys) = True"
| "bytes_less (x # xs) [] = False"
| "bytes_less (x # xs) (y # ys) =
     ((of_char x :: nat) < of_char y \<or> (x = y \<and> bytes_less xs ys))"

fun sql_less :: "sqlval \<Rightarrow> sqlval \<Rightarrow> bool" where
  "sql_less (Integer i) (Integer j) = (i < j)"
| "sql_less (Text s) (Text t) = bytes_less s t"
| "sql_less (Blob s) (Blob t) = bytes_less s t"
| "sql_less a b = (rank a < rank b)"

text \<open>
  \<open>ORDER BY c DESC\<close> as an insertion sort that keeps rows with equal keys in the order of
  the scan (SQLite leaves the order of ties open).
\<close>

fun insert_desc :: "string \<Rightarrow> row \<Rightarrow> row list \<Rightarrow> row list" where
  "insert_desc c r [] = [r]"
| "insert_desc c r (x # xs) =
     (if sql_less (r c) (x c) then x # insert_desc c r xs else r # x # xs)"

definition sort_desc :: "string \<Rightarrow> row list \<Rightarrow> row list" where
  "sort_desc c rs = foldr (insert_desc c) rs []"

subsection \<open>Statements\<close>

text \<open>
  The statements the scripts issue:
  \<^item> \<open>MasterByName n\<close>: \<^verbatim>\<open>SELECT name FROM sqlite_master WHERE type='table' AND name=n\<close>
  \<^item> \<open>MasterAll\<close>: \<^verbatim>\<open>SELECT name FROM sqlite_master WHERE type='table'\<close>
  \<^item> \<open>TableInfo t\<close>: \<^verbatim>\<open>PRAGMA table_info(t)\<close>
  \<^item> \<open>CountAll t\<close>: \<^verbatim>\<open>SELECT COUNT(*) FROM t\<close>
  \<^item> \<open>Select cols t w ord lim\<close>: \<^verbatim>\<open>SELECT cols FROM t WHERE c = v ORDER BY ord DESC LIMIT lim\<close>,
    with \<open>None\<close> for \<open>*\<close> and for a clause that is not there
  \<^item> \<open>InsertOrReplace t cols vals\<close>: \<^verbatim>\<open>INSERT OR REPLACE INTO t (cols) VALUES (vals)\<close>
\<close>

datatype sql =
    MasterByName string
  | MasterAll
  | TableInfo string
  | CountAll string
  | Select "string list option" string "(string \<times> sqlval) option" "string option" "nat option"
  | InsertOrReplace string "string list" "sqlval list"

definition table_info :: "table \<Rightarrow> sqlval list list" where
  "table_info t =
     map (\<lambda>(i, c). [Integer (int i), Text (c_name c), Text (c_type c),
                     Integer (if c_notnull c then 1 else 0), c_dflt c, Integer (int (c_pk c))])
         (enumerate 0 (t_cols t))"

text \<open>The columns a \<open>SELECT\<close> names, in the order result list, \<open>WHERE\<close>, \<open>ORDER BY\<close>.\<close>

definition named_cols ::
  "string list option \<Rightarrow> (string \<times> sqlval) option \<Rightarrow> string option \<Rightarrow> string list" where
  "named_cols cols w ord =
     (case cols of None \<Rightarrow> [] | Some cs \<Rightarrow> cs)
     @ (case w of None \<Rightarrow> [] | Some (c, v) \<Rightarrow> [c])
     @ (case ord of None \<Rightarrow> [] | Some c \<Rightarrow> [c])"

definition select_rows ::
  "table \<Rightarrow> string list option \<Rightarrow> (string \<times> sqlval) option \<Rightarrow> string option \<Rightarrow> nat option
   \<Rightarrow> sqlval list list" where
  "select_rows t cols w ord lim =
     (let rs1 = (case w of None \<Rightarrow> t_rows t
                 | Some (c, v) \<Rightarrow> filter (\<lambda>r. r c \<noteq> Null \<and> r c = v) (t_rows t));
          rs2 = (case ord of None \<Rightarrow> rs1 | Some c \<Rightarrow> sort_desc c rs1);
          rs3 = (case lim of None \<Rightarrow> rs2 | Some n \<Rightarrow> take n rs2);
          cs = (case cols of None \<Rightarrow> col_names t | Some cs \<Rightarrow> cs)
      in map (\<lambda>r. map r cs) rs3)"

text \<open>
  The row an \<open>INSERT\<close> builds: a named column gets its value, any other column its default.
  Under \<open>OR REPLACE\<close> a \<open>NULL\<close> in a \<open>NOT NULL\<close> column becomes the default.
\<close>

definition given_row :: "table \<Rightarrow> string list \<Rightarrow> sqlval list \<Rightarrow> row" where
  "given_row t cols vals =
     (\<lambda>c. case map_of (zip cols vals) c of
             Some v \<Rightarrow> v
           | None \<Rightarrow> (case find (\<lambda>k. c_name k = c) (t_cols t) of
                        Some k \<Rightarrow> c_dflt k
                      | None \<Rightarrow> Null))"

definition new_row :: "table \<Rightarrow> string list \<Rightarrow> sqlval list \<Rightarrow> row" where
  "new_row t cols vals =
     (\<lambda>c. if given_row t cols vals c = Null
          then (case find (\<lambda>k. c_name k = c \<and> c_notnull k) (t_cols t) of
                  Some k \<Rightarrow> c_dflt k
                | None \<Rightarrow> Null)
          else given_row t cols vals c)"

definition put_table :: "string \<Rightarrow> table \<Rightarrow> store \<Rightarrow> store" where
  "put_table n t db = map (\<lambda>(m, u). if m = n then (m, t) else (m, u)) db"

text \<open>
  \<open>run_sql\<close> gives the rows a statement returns and the store after it, or the exception
  it raises. \<open>INSERT OR REPLACE\<close> removes every row that conflicts with the new one on a
  key set, then adds the new row at the end.
\<close>

fun run_sql :: "sql \<Rightarrow> store \<Rightarrow> exn + (sqlval list list \<times> store)" where
  "run_sql (MasterByName n) db =
     Inr (map (\<lambda>m. [Text m]) (filter (\<lambda>m. m = n) (map fst db)), db)"
| "run_sql MasterAll db = Inr (map (\<lambda>m. [Text m]) (map fst db), db)"
| "run_sql (TableInfo n) db =
     Inr ((case map_of db n of None \<Rightarrow> [] | Some t \<Rightarrow> table_info t), db)"
| "run_sql (CountAll n) db =
     (case map_of db n of
        None \<Rightarrow> Inl (NoSuchTable n)
      | Some t \<Rightarrow> Inr ([[Integer (int (length (t_rows t)))]], db))"
| "run_sql (Select cols n w ord lim) db =
     (case map_of db n of
        None \<Rightarrow> Inl (NoSuchTable n)
      | Some t \<Rightarrow>
          (case find (\<lambda>c. c \<notin> set (col_names t)) (named_cols cols w ord) of
             Some c \<Rightarrow> Inl (NoSuchColumn c)
           | None \<Rightarrow> Inr (select_rows t cols w ord lim, db)))"
| "run_sql (InsertOrReplace n cols vals) db =
     (case map_of db n of
        None \<Rightarrow> Inl (NoSuchTable n)
      | Some t \<Rightarrow>
          (case find (\<lambda>c. c \<notin> set (col_names t)) cols of
             Some c \<Rightarrow> Inl (NoSuchColumn c)
           | None \<Rightarrow>
               if length cols \<noteq> length vals then Inl ProgrammingError
               else (case find (\<lambda>k. c_notnull k \<and> new_row t cols vals (c_name k) = Null)
                               (t_cols t) of
                       Some k \<Rightarrow> Inl (IntegrityError (c_name k))
                     | None \<Rightarrow>
                         Inr ([], put_table n
                                (t\<lparr>t_rows := filter (\<lambda>old. \<not> conflicts t (new_row t cols vals) old)
                                                    (t_rows t)
                                              @ [new_row t cols vals]\<rparr>) db))))"

section \<open>Connections, output and exceptions\<close>

text \<open>
  What a script prints is a list of messages, one constructor for each \<open>print\<close> of the
  scripts, carrying the values the line shows.
\<close>

datatype msg =
    NotFoundInCommonLocations
  | SearchedLocations
  | Location string
  | FoundAt string
  | PasswordsTableNotFound
  | AvailableTables
  | TableLine sqlval
  | PasswordsTableExists
  | TableSchema
  | ColumnLine sqlval sqlval
  | StoredPasswords sqlval
  | RecentEntries
  | EntryID sqlval
  | EntryUser sqlval
  | EntryDriveID sqlval
  | EntryDevice sqlval
  | EntryLabel sqlval
  | EntryHint sqlval
  | EntryCreated sqlval
  | EntryUpdated sqlval
  | EntrySeparator
  | UsersInDatabase sqlval
  | SampleUsers
  | UserLine sqlval sqlval
  | DatabaseError exn
  | DatabaseNotFound
  | InsertedTrustLevel
  | TrustEntryFound "sqlval list"
  | TrustEntryNotFound
  | InsertedPassword
  | DatabaseStatus
  | TrustEntries sqlval
  | PasswordEntries sqlval
  | OperationFailed exn

datatype event = Exec sql | Commit | Close

text \<open>
  The state of a run: the store as the connection sees it (\<open>db\<close>), the store as committed
  to the file (\<open>durable\<close>), whether a connection was opened and whether it was closed, the
  statements sent so far and the lines printed so far.
\<close>

record state =
  db :: store
  durable :: store
  opened :: bool
  closed :: bool
  log :: "event list"
  out :: "msg list"

definition initial :: state where
  "initial = \<lparr> db = [], durable = [], opened = False, closed = False, log = [], out = [] \<rparr>"

datatype 'a outcome = Raised exn state | Returned 'a state

fun final :: "'a outcome \<Rightarrow> state" where
  "final (Raised e st) = st"
| "final (Returned x st) = st"

type_synonym 'a prog = "state \<Rightarrow> 'a outcome"

definition bind :: "'a prog \<Rightarrow> ('a \<Rightarrow> 'b prog) \<Rightarrow> 'b prog" where
  "bind m k = (\<lambda>st. case m st of Raised e st' \<Rightarrow> Raised e st' | Returned x st' \<Rightarrow> k x st')"

definition seq :: "unit prog \<Rightarrow> 'b prog \<Rightarrow> 'b prog" where
  "seq m k = bind m (\<lambda>_. k)"

definition return :: "'a \<Rightarrow> 'a prog" where
  "return x = (\<lambda>st. Returned x st)"

definition say :: "msg \<Rightarrow> unit prog" where
  "say m = (\<lambda>st. Returned () (st\<lparr>out := out st @ [m]\<rparr>))"

fun for_each :: "'a list \<Rightarrow> ('a \<Rightarrow> unit prog) \<Rightarrow> unit prog" where
  "for_each [] body = return ()"
| "for_each (x # xs) body = seq (body x) (for_each xs body)"

text \<open>
  The environment of a run: the file system, what opening a path as a database gives, and
  which statements fail for a reason outside the store's contents (an I/O error, a locked
  file): \<open>fault k\<close> is the exception of the \<open>k\<close>-th statement or commit, if it has one.
\<close>

record env = filesystem +
  open_db :: "string \<Rightarrow> exn + store"
  fault :: "nat \<Rightarrow> exn option"

definition connect :: "env \<Rightarrow> string \<Rightarrow> unit prog" where
  "connect E path =
     (\<lambda>st. case open_db E path of
             Inl e \<Rightarrow> Raised e st
           | Inr s \<Rightarrow> Returned () (st\<lparr>db := s, durable := s, opened := True\<rparr>))"

definition execute :: "env \<Rightarrow> sql \<Rightarrow> (sqlval list list) prog" where
  "execute E q =
     (\<lambda>st. let st1 = st\<lparr>log := log st @ [Exec q]\<rparr> in
           case fault E (length (log st)) of
             Some e \<Rightarrow> Raised e st1
           | None \<Rightarrow> (case run_sql q (db st) of
                        Inl e \<Rightarrow> Raised e st1
                      | Inr (rs, db') \<Rightarrow> Returned rs (st1\<lparr>db := db'\<rparr>)))"

definition commit :: "env \<Rightarrow> unit prog" where
  "commit E =
     (\<lambda>st. let st1 = st\<lparr>log := log st @ [Commit]\<rparr> in
           case fault E (length (log st)) of
             Some e \<Rightarrow> Raised e st1
           | None \<Rightarrow> Returned () (st1\<lparr>durable := db st\<rparr>))"

text \<open>Closing drops what was not committed.\<close>

definition close :: "state \<Rightarrow> state" where
  "close st = st\<lparr>db := durable st, closed := True, log := log st @ [Close]\<rparr>"

text \<open>\<open>cursor.fetchone()\<close> and the subscripts \<open>t[i]\<close> and \<open>cursor.fetchone()[i]\<close>.\<close>

definition fetchone :: "sqlval list list \<Rightarrow> sqlval list option" where
  "fetchone rs = (case rs of [] \<Rightarrow> None | r # _ \<Rightarrow> Some r)"

definition item :: "sqlval list \<Rightarrow> nat \<Rightarrow> sqlval prog" where
  "item t i = (\<lambda>st. if i < length t then Returned (t ! i) st else Raised IndexError st)"

definition fetchone_item :: "sqlval list list \<Rightarrow> nat \<Rightarrow> sqlval prog" where
  "fetchone_item rs i =
     (case fetchone rs of None \<Rightarrow> (\<lambda>st. Raised TypeError st) | Some t \<Rightarrow> item t i)"

text \<open>Truth of a fetched row: \<open>None\<close> and the empty tuple are false.\<close>

definition truthy :: "sqlval list option \<Rightarrow> bool" where
  "truthy r = (case r of None \<Rightarrow> False | Some t \<Rightarrow> t \<noteq> [])"

text \<open>\<open>count > 0\<close>: only an integer compares with \<open>0\<close>.\<close>

fun greater_zero :: "sqlval \<Rightarrow> bool prog" where
  "greater_zero (Integer n) = return (0 < n)"
| "greater_zero v = (\<lambda>st. Raised TypeError st)"

definition try_except :: "unit prog \<Rightarrow> (exn \<Rightarrow> unit prog) \<Rightarrow> unit prog" where
  "try_except m handler =
     (\<lambda>st. case m st of Raised e st' \<Rightarrow> handler e st' | Returned x st' \<Rightarrow> Returned x st')"

definition try_finally :: "unit prog \<Rightarrow> (state \<Rightarrow> state) \<Rightarrow> unit prog" where
  "try_finally m cleanup =
     (\<lambda>st. case m st of
             Raised e st' \<Rightarrow> Raised e (cleanup st')
           | Returned x st' \<Rightarrow> Returned x (cleanup st'))"

definition connected :: "store \<Rightarrow> state" where
  "connected s = initial\<lparr>db := s, durable := s, opened := True\<rparr>"

section \<open>The inspector: \<open>check_database\<close>\<close>

definition recent_passwords :: sql where
  "recent_passwords =
     Select (Some [''id'', ''user_id'', ''drive_id'', ''device_path'', ''drive_label'',
                   ''password_hint'', ''created_at'', ''updated_at''])
            ''usb_drive_passwords'' None (Some ''created_at'') (Some 5)"

definition sample_users :: sql where
  "sample_users = Select (Some [''id'', ''username'', ''email'']) ''users'' None None (Some 3)"

text \<open>The branch taken when the lookup of \<open>usb_drive_passwords\<close> in the catalog is empty.\<close>

definition list_tables :: "env \<Rightarrow> unit prog" where
  "list_tables E =
     seq (say PasswordsTableNotFound)
    (bind (execute E MasterAll) (\<lambda>tables.
     seq (say AvailableTables)
    (for_each tables (\<lambda>table.
       bind (item table 0) (\<lambda>name. say (TableLine name))))))"

definition show_entry :: "sqlval list \<Rightarrow> unit prog" where
  "show_entry pwd =
     bind (item pwd 0) (\<lambda>v. seq (say (EntryID v))
    (bind (item pwd 1) (\<lambda>v. seq (say (EntryUser v))
    (bind (item pwd 2) (\<lambda>v. seq (say (EntryDriveID v))
    (bind (item pwd 3) (\<lambda>v. seq (say (EntryDevice v))
    (bind (item pwd 4) (\<lambda>v. seq (say (EntryLabel v))
    (bind (item pwd 5) (\<lambda>v. seq (say (EntryHint v))
    (bind (item pwd 6) (\<lambda>v. seq (say (EntryCreated v))
    (bind (item pwd 7) (\<lambda>v. seq (say (EntryUpdated v))
    (say EntrySeparator))))))))))))))))"

text \<open>The branch taken when the catalog has \<open>usb_drive_passwords\<close>.\<close>

definition describe_passwords :: "env \<Rightarrow> unit prog" where
  "describe_passwords E =
     seq (say PasswordsTableExists)
    (bind (execute E (TableInfo ''usb_drive_passwords'')) (\<lambda>columns.
     seq (say TableSchema)
    (seq (for_each columns (\<lambda>col.
            bind (item col 1) (\<lambda>name. bind (item col 2) (\<lambda>ty. say (ColumnLine name ty)))))
    (bind (execute E (CountAll ''usb_drive_passwords'')) (\<lambda>rs.
     bind (fetchone_item rs 0) (\<lambda>count.
     seq (say (StoredPasswords count))
    (bind (greater_zero count) (\<lambda>positive.
     if positive
     then bind (execute E recent_passwords) (\<lambda>passwords.
          seq (say RecentEntries) (for_each passwords show_entry))
     else return ()))))))))"

definition check_users :: "env \<Rightarrow> unit prog" where
  "check_users E =
     bind (execute E (CountAll ''users'')) (\<lambda>rs.
     bind (fetchone_item rs 0) (\<lambda>user_count.
     seq (say (UsersInDatabase user_count))
    (bind (execute E sample_users) (\<lambda>users.
     seq (say SampleUsers)
    (for_each users (\<lambda>user.
       bind (item user 1) (\<lambda>name. bind (item user 2) (\<lambda>email. say (UserLine name email)))))))))"

text \<open>The body of the \<open>try\<close>, from \<open>sqlite3.connect\<close> to \<open>conn.close()\<close>.\<close>

definition inspect :: "env \<Rightarrow> string \<Rightarrow> unit prog" where
  "inspect E db_path =
     seq (connect E db_path)
    (bind (execute E (MasterByName ''usb_drive_passwords'')) (\<lambda>rs.
     seq (if \<not> truthy (fetchone rs) then list_tables E else describe_passwords E)
    (seq (check_users E)
         (\<lambda>st. Returned () (close st)))))"

definition not_found_report :: "unit prog" where
  "not_found_report =
     seq (say NotFoundInCommonLocations)
    (seq (say SearchedLocations)
    (seq (say (Location ''~/.local/share/com.zap-vault/vault.db''))
    (seq (say (Location ''~/.local/share/zap-vault/vault.db''))
    (seq (say (Location ''~/.config/zap-vault/vault.db''))
    (seq (say (Location ''/tmp/vault.db''))
    (seq (say (Location ''./vault.db''))
         (say (Location ''./src-tauri/vault.db''))))))))"

definition check_database :: "env \<Rightarrow> unit outcome" where
  "check_database E =
     (case find_database E of
        Inl e \<Rightarrow> Raised e initial
      | Inr None \<Rightarrow> not_found_report initial
      | Inr (Some db_path) \<Rightarrow>
          seq (say (FoundAt db_path))
              (try_except (inspect E db_path) (\<lambda>e. say (DatabaseError e))) initial)"

section \<open>The upsert verifier: \<open>test_trust_levels\<close>\<close>

definition test_drive_id :: string where
  "test_drive_id = ''usb_sde1''"

definition test_trust_level :: string where
  "test_trust_level = ''trusted''"

definition now :: string where
  "now = ''2025-09-01T15:54:00Z''"

text \<open>
  The two inserts, as functions of the three local variables the script sets before the
  \<open>try\<close>. Both name the device \<open>"/dev/" + drive.replace("usb_", "")\<close>.
\<close>

definition device_path :: "string \<Rightarrow> string" where
  "device_path drive = ''/dev/'' @ str_replace ''usb_'' [] drive"

definition trust_insert :: "string \<Rightarrow> string \<Rightarrow> string \<Rightarrow> sql" where
  "trust_insert drive level ts =
     InsertOrReplace ''usb_drive_trust''
       [''id'', ''user_id'', ''drive_id'', ''device_path'', ''drive_label'', ''trust_level'',
        ''created_at'', ''updated_at'']
       [Text (''trust_'' @ drive), Text ''admin'', Text drive, Text (device_path drive),
        Text ''TEST_DRIVE'', Text level, Text ts, Text ts]"

definition password_insert :: "string \<Rightarrow> string \<Rightarrow> sql" where
  "password_insert drive ts =
     InsertOrReplace ''usb_drive_passwords''
       [''id'', ''user_id'', ''drive_id'', ''device_path'', ''drive_label'',
        ''encrypted_password'', ''password_hint'', ''created_at'', ''updated_at'']
       [Text (''pwd_'' @ drive), Text ''admin'', Text drive, Text (device_path drive),
        Text ''TEST_DRIVE'', Text ''encrypted_test_password'', Text ''test hint'',
        Text ts, Text ts]"

definition select_by_drive :: "string \<Rightarrow> string \<Rightarrow> sql" where
  "select_by_drive tbl drive = Select None tbl (Some (''drive_id'', Text drive)) None None"

text \<open>
  The body of the \<open>try\<close>, in its two parts: the check of \<open>usb_drive_trust\<close> (insert,
  commit, read back) and the check of \<open>usb_drive_passwords\<close> (insert, commit, the two
  counts). They run one after the other inside the same \<open>try\<close>.
\<close>

definition trust_check :: "env \<Rightarrow> string \<Rightarrow> string \<Rightarrow> string \<Rightarrow> unit prog" where
  "trust_check E drive level ts =
     bind (execute E (trust_insert drive level ts)) (\<lambda>_.
     seq (commit E)
    (seq (say InsertedTrustLevel)
    (bind (execute E (select_by_drive ''usb_drive_trust'' drive)) (\<lambda>rs.
     case fetchone rs of
       None \<Rightarrow> say TrustEntryNotFound
     | Some result \<Rightarrow>
         if result \<noteq> [] then say (TrustEntryFound result) else say TrustEntryNotFound))))"

definition password_check :: "env \<Rightarrow> string \<Rightarrow> string \<Rightarrow> unit prog" where
  "password_check E drive ts =
     bind (execute E (password_insert drive ts)) (\<lambda>_.
     seq (commit E)
    (seq (say InsertedPassword)
    (bind (execute E (CountAll ''usb_drive_trust'')) (\<lambda>rs.
     bind (fetchone_item rs 0) (\<lambda>trust_count.
     bind (execute E (CountAll ''usb_drive_passwords'')) (\<lambda>rs.
     bind (fetchone_item rs 0) (\<lambda>pwd_count.
     seq (say DatabaseStatus)
    (seq (say (TrustEntries trust_count))
         (say (PasswordEntries pwd_count))))))))))"

definition verify :: "env \<Rightarrow> string \<Rightarrow> string \<Rightarrow> string \<Rightarrow> unit prog" where
  "verify E drive level ts = seq (trust_check E drive level ts) (password_check E drive ts)"

text \<open>\<open>try\<close>, \<open>except Exception\<close>, \<open>finally: conn.close()\<close>.\<close>

definition upsert_verifier :: "env \<Rightarrow> string \<Rightarrow> string \<Rightarrow> string \<Rightarrow> unit prog" where
  "upsert_verifier E drive level ts =
     try_finally (try_except (verify E drive level ts) (\<lambda>e. say (OperationFailed e))) close"

definition test_trust_levels :: "env \<Rightarrow> unit outcome" where
  "test_trust_levels E =
     (let db_path = joinp (home E) ''.local/share/com.zap-vault/vault.db'' in
      case exists E db_path of
        Denied \<Rightarrow> Raised (PermissionError db_path) initial
      | Absent \<Rightarrow> say DatabaseNotFound initial
      | Present \<Rightarrow>
          seq (connect E db_path)
              (upsert_verifier E test_drive_id test_trust_level now) initial)"

section \<open>Reading results\<close>

text \<open>The exception an outcome carries, if it is one.\<close>

fun failure :: "'a outcome \<Rightarrow> exn option" where
  "failure (Raised e st) = Some e"
| "failure (Returned x st) = None"

text \<open>
  What a store answers to a statement, the store the statement leaves, and whether the
  store accepts the statement at all.
\<close>

definition rows_of :: "sql \<Rightarrow> store \<Rightarrow> exn + sqlval list list" where
  "rows_of q s = (case run_sql q s of Inl e \<Rightarrow> Inl e | Inr (rs, s') \<Rightarrow> Inr rs)"

definition store_after :: "sql \<Rightarrow> store \<Rightarrow> store" where
  "store_after q s = (case run_sql q s of Inl e \<Rightarrow> s | Inr (rs, s') \<Rightarrow> s')"

definition accepts :: "store \<Rightarrow> sql \<Rightarrow> bool" where
  "accepts s q = (case run_sql q s of Inl e \<Rightarrow> False | Inr r \<Rightarrow> True)"

definition table_rows :: "store \<Rightarrow> string \<Rightarrow> row list" where
  "table_rows s n = (case map_of s n of None \<Rightarrow> [] | Some t \<Rightarrow> t_rows t)"

text \<open>The row an \<open>INSERT\<close> puts into table \<open>t\<close>.\<close>

fun record_of :: "table \<Rightarrow> sql \<Rightarrow> row" where
  "record_of t (InsertOrReplace n cols vals) = new_row t cols vals"
| "record_of t q = (\<lambda>c. Null)"


text \<open>The value an \<open>INSERT\<close> gives to a column it names.\<close>

fun inserted_value :: "sql \<Rightarrow> string \<Rightarrow> sqlval option" where
  "inserted_value (InsertOrReplace n cols vals) c = map_of (zip cols vals) c"
| "inserted_value q c = None"

section \<open>Example stores and environments\<close>

definition mk_row :: "(string \<times> sqlval) list \<Rightarrow> row" where
  "mk_row kvs = (\<lambda>c. case map_of kvs c of Some v \<Rightarrow> v | None \<Rightarrow> Null)"

definition text_col :: "string \<Rightarrow> column" where
  "text_col n = \<lparr> c_name = n, c_type = ''TEXT'', c_notnull = False, c_dflt = Null, c_pk = 0 \<rparr>"

definition key_col :: "string \<Rightarrow> column" where
  "key_col n = \<lparr> c_name = n, c_type = ''TEXT'', c_notnull = False, c_dflt = Null, c_pk = 1 \<rparr>"

text \<open>
  The three tables with the columns the scripts name, all of type text, and \<open>id\<close> as the
  primary key and only key (the specification's layout of the store).
\<close>

definition trust_table :: "row list \<Rightarrow> table" where
  "trust_table rs =
     \<lparr> t_cols = key_col ''id'' # map text_col [''user_id'', ''drive_id'', ''device_path'',
                  ''drive_label'', ''trust_level'', ''created_at'', ''updated_at''],
       t_unique = [], t_rows = rs \<rparr>"

definition passwords_table :: "row list \<Rightarrow> table" where
  "passwords_table rs =
     \<lparr> t_cols = key_col ''id'' # map text_col [''user_id'', ''drive_id'', ''device_path'',
                  ''drive_label'', ''encrypted_password'', ''password_hint'', ''created_at'',
                  ''updated_at''],
       t_unique = [], t_rows = rs \<rparr>"

definition users_table :: "row list \<Rightarrow> table" where
  "users_table rs =
     \<lparr> t_cols = key_col ''id'' # map text_col [''username'', ''email''],
       t_unique = [], t_rows = rs \<rparr>"

text \<open>An environment whose store \<open>s\<close> is at the first candidate path; nothing fails.\<close>

definition vault_env :: "store \<Rightarrow> env" where
  "vault_env s =
     \<lparr> home = ''/home/zap'', cwd = ''/work'',
       exists = (\<lambda>p. if p = ''/home/zap/.local/share/com.zap-vault/vault.db''
                      then Present else Absent),
       glob = (\<lambda>pat. []), open_db = (\<lambda>p. Inr s), fault = (\<lambda>k. None) \<rparr>"

definition store_without_users :: store where
  "store_without_users =
     [(''usb_drive_passwords'', passwords_table []), (''usb_drive_trust'', trust_table [])]"

definition store_without_trust :: store where
  "store_without_trust = [(''users'', users_table []), (''usb_drive_passwords'', passwords_table [])]"

definition fs_empty :: filesystem where
  "fs_empty = \<lparr> home = ''/home/zap'', cwd = ''/work'',
                exists = (\<lambda>p. Absent), glob = (\<lambda>pat. []) \<rparr>"



text \<open>Rows and stores used as examples.\<close>

definition other_user_password :: row where
  "other_user_password =
     mk_row [(''id'', Text ''pwd_old''), (''user_id'', Text ''bob''),
             (''drive_id'', Text ''usb_sde1''), (''device_path'', Text ''/dev/sde1''),
             (''drive_label'', Text ''BACKUP''), (''encrypted_password'', Blob ''c1ph3r''),
             (''password_hint'', Text ''old hint''),
             (''created_at'', Text ''2025-08-01T10:00:00Z''),
             (''updated_at'', Text ''2025-08-01T10:00:00Z'')]"

definition stale_password :: row where
  "stale_password =
     mk_row [(''id'', Text ''pwd_usb_sde1''), (''user_id'', Text ''admin''),
             (''drive_id'', Text ''usb_sde1''), (''device_path'', Text ''/dev/sde1''),
             (''drive_label'', Text ''TEST_DRIVE''), (''encrypted_password'', Text ''stale''),
             (''password_hint'', Text ''stale hint''),
             (''created_at'', Text ''2025-08-01T10:00:00Z''),
             (''updated_at'', Text ''2025-08-01T10:00:00Z'')]"

definition stale_trust :: row where
  "stale_trust =
     mk_row [(''id'', Text ''trust_usb_sde1''), (''user_id'', Text ''admin''),
             (''drive_id'', Text ''usb_sde1''), (''device_path'', Text ''/dev/sde1''),
             (''drive_label'', Text ''TEST_DRIVE''), (''trust_level'', Text ''untrusted''),
             (''created_at'', Text ''2025-08-01T10:00:00Z''),
             (''updated_at'', Text ''2025-08-01T10:00:00Z'')]"


definition store_shared_drive :: store where
  "store_shared_drive =
     [(''users'', users_table []), (''usb_drive_trust'', trust_table []),
      (''usb_drive_passwords'', passwords_table [other_user_password])]"

definition store_seeded :: store where
  "store_seeded =
     [(''users'', users_table []), (''usb_drive_trust'', trust_table [stale_trust]),
      (''usb_drive_passwords'', passwords_table [stale_password])]"





section \<open>Reading the statements sent and the lines printed\<close>









section \<open>Stores that differ in ciphertext only\<close>












section \<open>Properties of the locator\<close>

lemma search_with_patterns_none:
  "\<forall>pat \<in> set pats. glob fs pat = [] \<Longrightarrow> search_with_patterns fs pats = None"
  by (induction pats) simp_all

lemma check_exact_paths_absent:
  "\<forall>p \<in> set ps. exists fs p = Absent \<Longrightarrow>
   check_exact_paths fs ps = Inr (search_with_patterns fs (search_patterns fs))"
  by (induction ps) simp_all


text \<open>
  C7. When every exact candidate path is absent and no search pattern matches anything,
  \<open>find_database\<close> returns \<open>None\<close>; no exception leaves the function.
\<close>

theorem find_database_not_found:
  assumes "\<forall>p \<in> set (possible_paths fs). exists fs p = Absent"
    and "\<forall>pat \<in> set (search_patterns fs). glob fs pat = []"
  shows "find_database fs = Inr None"
  using assms
  by (simp only: find_database_def check_exact_paths_absent search_with_patterns_none)

theorem find_database_not_found_witness:
  "list_all (\<lambda>p. exists fs_empty p = Absent) (possible_paths fs_empty)
   \<and> list_all (\<lambda>pat. glob fs_empty pat = []) (search_patterns fs_empty)
   \<and> find_database fs_empty = Inr None"
proof -
  have a: "\<forall>p \<in> set (possible_paths fs_empty). exists fs_empty p = Absent"
    by (simp add: fs_empty_def)
  have b: "\<forall>pat \<in> set (search_patterns fs_empty). glob fs_empty pat = []"
    by (simp add: fs_empty_def)
  from a b find_database_not_found [OF a b] show ?thesis
    by (simp only: list_all_iff simp_thms)
qed



section \<open>The device path\<close>

lemma str_replace_absent:
  "old \<noteq> [] \<Longrightarrow> \<not> occurs old s \<Longrightarrow> str_replace old new s = s"
proof (induction s)
  case Nil
  then show ?case by (simp add: str_replace.simps)
next
  case (Cons c cs)
  then have "take (length old) (c # cs) \<noteq> old" and "\<not> occurs old cs" by auto
  with Cons show ?case by (subst str_replace.simps) simp
qed

lemma str_replace_prefix:
  assumes "old \<noteq> []" and "take (length old) s = old"
  shows "str_replace old new s = new @ str_replace old new (drop (length old) s)"
proof -
  from assms have "s \<noteq> []" by auto
  with assms show ?thesis by (subst str_replace.simps) simp
qed

lemma device_path_strip:
  assumes "\<not> occurs ''usb_'' (strip_prefix ''usb_'' drive)"
  shows "device_path drive = ''/dev/'' @ strip_prefix ''usb_'' drive"
proof (cases "take (length ''usb_'') drive = ''usb_''")
  case True
  then have "str_replace ''usb_'' [] drive
               = [] @ str_replace ''usb_'' [] (drop (length ''usb_'') drive)"
    by (intro str_replace_prefix) simp_all
  moreover from True assms have "\<not> occurs ''usb_'' (drop (length ''usb_'') drive)"
    by (simp add: strip_prefix_def)
  then have "str_replace ''usb_'' [] (drop (length ''usb_'') drive)
               = drop (length ''usb_'') drive"
    by (intro str_replace_absent) simp_all
  ultimately show ?thesis using True by (simp add: device_path_def strip_prefix_def)
next
  case False
  with assms have "\<not> occurs ''usb_'' drive" by (simp add: strip_prefix_def)
  then have "str_replace ''usb_'' [] drive = drive" by (intro str_replace_absent) simp_all
  with False show ?thesis by (simp add: device_path_def strip_prefix_def)
qed

text \<open>
  C9, as stated, fails: \<open>replace\<close> removes every occurrence of \<open>usb_\<close>, not only the one
  at the front. For the identifier \<open>usb_usb_1\<close> the inserted device path is \<open>/dev/1\<close>,
  while stripping the prefix gives \<open>/dev/usb_1\<close>.
\<close>

theorem device_path_not_prefix_strip:
  "inserted_value (trust_insert ''usb_usb_1'' test_trust_level now) ''device_path''
     = Some (Text ''/dev/1'')
   \<and> ''/dev/'' @ strip_prefix ''usb_'' ''usb_usb_1'' = ''/dev/usb_1''"
  by code_simp

text \<open>
  C9, amended. For every drive identifier both inserts name the same device path,
  \<open>/dev/\<close> followed by the identifier with every occurrence of \<open>usb_\<close> removed; this is
  the identifier with the prefix \<open>usb_\<close> stripped whenever \<open>usb_\<close> does not occur in what
  is left after stripping (as for the script's \<open>usb_sde1\<close>).
\<close>

theorem device_path_derivation:
  "inserted_value (password_insert drive ts) ''device_path''
     = inserted_value (trust_insert drive level ts) ''device_path''
   \<and> inserted_value (trust_insert drive level ts) ''device_path''
     = Some (Text (''/dev/'' @ str_replace ''usb_'' [] drive))
   \<and> (\<not> occurs ''usb_'' (strip_prefix ''usb_'' drive) \<longrightarrow>
        inserted_value (trust_insert drive level ts) ''device_path''
          = Some (Text (''/dev/'' @ strip_prefix ''usb_'' drive)))"
proof -
  have "inserted_value (trust_insert drive level ts) ''device_path''
          = Some (Text (device_path drive))"
    by (simp add: trust_insert_def)
  moreover have "inserted_value (password_insert drive ts) ''device_path''
          = Some (Text (device_path drive))"
    by (simp add: password_insert_def)
  ultimately show ?thesis
    using device_path_strip [of drive] by (auto simp: device_path_def)
qed

theorem device_path_derivation_witness:
  "\<not> occurs ''usb_'' (strip_prefix ''usb_'' test_drive_id)
   \<and> inserted_value (trust_insert test_drive_id test_trust_level now) ''device_path''
       = Some (Text ''/dev/sde1'')
   \<and> inserted_value (password_insert test_drive_id now) ''device_path''
       = Some (Text ''/dev/sde1'')"
proof -
  have h: "\<not> occurs ''usb_'' (strip_prefix ''usb_'' test_drive_id)"
    by (simp add: strip_prefix_def test_drive_id_def)
  have s: "''/dev/'' @ strip_prefix ''usb_'' test_drive_id = ''/dev/sde1''"
    by (simp add: strip_prefix_def test_drive_id_def)
  from device_path_derivation [of test_drive_id now test_trust_level] h
  have "inserted_value (password_insert test_drive_id now) ''device_path''
          = inserted_value (trust_insert test_drive_id test_trust_level now) ''device_path''"
    and "inserted_value (trust_insert test_drive_id test_trust_level now) ''device_path''
          = Some (Text (''/dev/'' @ strip_prefix ''usb_'' test_drive_id))"
    by blast+
  with h s show ?thesis by (simp only: simp_thms)
qed

section \<open>Closing the connection\<close>

lemma upsert_verifier_closes: "closed (final (upsert_verifier E drive level ts st))"
  by (simp add: upsert_verifier_def try_finally_def close_def split: outcome.split)

lemma test_trust_levels_closes:
  "opened (final (test_trust_levels E)) \<longrightarrow> closed (final (test_trust_levels E))"
proof (cases "exists E (joinp (home E) ''.local/share/com.zap-vault/vault.db'')")
  case Present
  show ?thesis
  proof (cases "open_db E (joinp (home E) ''.local/share/com.zap-vault/vault.db'')")
    case (Inl e)
    with Present show ?thesis
      by (simp add: test_trust_levels_def seq_def bind_def connect_def initial_def)
  next
    case (Inr s)
    with Present show ?thesis
      by (simp add: test_trust_levels_def seq_def bind_def connect_def upsert_verifier_closes)
  qed
next
  case Absent
  then show ?thesis by (simp add: test_trust_levels_def say_def initial_def)
next
  case Denied
  then show ?thesis by (simp add: test_trust_levels_def initial_def)
qed

text \<open>
  C6. The verifier closes its connection on every outcome (the two lemmas above); the
  inspector does not: \<open>conn.close()\<close> is the last statement inside its \<open>try\<close>, so an
  exception skips it. On a store without the table \<open>users\<close> the run ends with the
  connection opened and not closed.
\<close>

theorem check_database_leaves_connection_open:
  "opened (final (check_database (vault_env store_without_users)))
   \<and> \<not> closed (final (check_database (vault_env store_without_users)))
   \<and> last (out (final (check_database (vault_env store_without_users))))
       = DatabaseError (NoSuchTable ''users'')
   \<and> Close \<notin> set (log (final (check_database (vault_env store_without_users))))"
  by code_simp

section \<open>Failures in the verifier\<close>

lemma seq_raised:
  "failure (m st) = Some e \<Longrightarrow> seq m k st = Raised e (final (m st))"
  by (cases "m st") (simp_all add: seq_def bind_def)

lemma upsert_verifier_raised:
  "failure (verify E drive level ts st) = Some e \<Longrightarrow>
   final (upsert_verifier E drive level ts st)
     = close ((final (verify E drive level ts st))
                \<lparr>out := out (final (verify E drive level ts st)) @ [OperationFailed e]\<rparr>)"
  by (cases "verify E drive level ts st")
     (simp_all add: upsert_verifier_def try_finally_def try_except_def say_def)

lemma trust_check_log:
  "\<exists>evs. log (final (trust_check E drive level ts st)) = log st @ evs
     \<and> set evs \<subseteq> {Exec (trust_insert drive level ts), Commit,
                      Exec (select_by_drive ''usb_drive_trust'' drive)}"
  by (simp add: trust_check_def seq_def bind_def say_def execute_def commit_def Let_def
           split: option.split sum.split prod.split outcome.split)

text \<open>
  C5, as stated, fails: both checks are inside one \<open>try\<close>. On a store that has
  \<open>usb_drive_passwords\<close> but not \<open>usb_drive_trust\<close> the first insert raises, the only line
  printed is the failure, and the insert into \<open>usb_drive_passwords\<close> is never sent: the
  table still has no row.
\<close>

theorem password_check_not_attempted:
  "out (final (test_trust_levels (vault_env store_without_trust)))
     = [OperationFailed (NoSuchTable ''usb_drive_trust'')]
   \<and> log (final (test_trust_levels (vault_env store_without_trust)))
     = [Exec (trust_insert test_drive_id test_trust_level now), Close]
   \<and> Exec (password_insert test_drive_id now)
       \<notin> set (log (final (test_trust_levels (vault_env store_without_trust))))
   \<and> rows_of (CountAll ''usb_drive_passwords'')
        (durable (final (test_trust_levels (vault_env store_without_trust))))
       = Inr [[Integer 0]]"
  by code_simp

text \<open>
  C5, amended. A failure raised anywhere in the body of the \<open>try\<close> ends the whole run:
  the state at the failure gets the one line reporting it and the connection is closed,
  nothing else is done. In particular a failure in the check of \<open>usb_drive_trust\<close> is a
  failure of the body, and the statements sent are then only those of that check.
\<close>

theorem failure_aborts_whole_run:
  "(failure (verify E drive level ts st) = Some e \<longrightarrow>
      final (upsert_verifier E drive level ts st)
        = close ((final (verify E drive level ts st))
                   \<lparr>out := out (final (verify E drive level ts st)) @ [OperationFailed e]\<rparr>))
   \<and> (failure (trust_check E drive level ts st) = Some e \<longrightarrow>
        verify E drive level ts st = Raised e (final (trust_check E drive level ts st))
        \<and> (\<exists>evs. log (final (verify E drive level ts st)) = log st @ evs
              \<and> set evs \<subseteq> {Exec (trust_insert drive level ts), Commit,
                               Exec (select_by_drive ''usb_drive_trust'' drive)}))"
proof (intro conjI impI)
  assume "failure (verify E drive level ts st) = Some e"
  then show "final (upsert_verifier E drive level ts st)
        = close ((final (verify E drive level ts st))
                   \<lparr>out := out (final (verify E drive level ts st)) @ [OperationFailed e]\<rparr>)"
    by (rule upsert_verifier_raised)
next
  assume f: "failure (trust_check E drive level ts st) = Some e"
  then show v: "verify E drive level ts st = Raised e (final (trust_check E drive level ts st))"
    unfolding verify_def by (rule seq_raised)
  from trust_check_log [of E drive level ts st]
  show "\<exists>evs. log (final (verify E drive level ts st)) = log st @ evs
              \<and> set evs \<subseteq> {Exec (trust_insert drive level ts), Commit,
                               Exec (select_by_drive ''usb_drive_trust'' drive)}"
    by (simp add: v)
qed

theorem failure_aborts_whole_run_witness:
  "failure (verify (vault_env store_without_trust) test_drive_id test_trust_level now
              (connected store_without_trust)) = Some (NoSuchTable ''usb_drive_trust'')
   \<and> failure (trust_check (vault_env store_without_trust) test_drive_id test_trust_level now
              (connected store_without_trust)) = Some (NoSuchTable ''usb_drive_trust'')
   \<and> final (upsert_verifier (vault_env store_without_trust) test_drive_id test_trust_level now
              (connected store_without_trust))
       = close ((final (verify (vault_env store_without_trust) test_drive_id test_trust_level
                          now (connected store_without_trust)))
                  \<lparr>out := out (final (verify (vault_env store_without_trust) test_drive_id
                                         test_trust_level now (connected store_without_trust)))
                          @ [OperationFailed (NoSuchTable ''usb_drive_trust'')]\<rparr>)
   \<and> verify (vault_env store_without_trust) test_drive_id test_trust_level now
        (connected store_without_trust)
       = Raised (NoSuchTable ''usb_drive_trust'')
           (final (trust_check (vault_env store_without_trust) test_drive_id test_trust_level
                     now (connected store_without_trust)))"
proof -
  have a: "failure (verify (vault_env store_without_trust) test_drive_id test_trust_level now
              (connected store_without_trust)) = Some (NoSuchTable ''usb_drive_trust'')"
    by code_simp
  have b: "failure (trust_check (vault_env store_without_trust) test_drive_id test_trust_level
              now (connected store_without_trust)) = Some (NoSuchTable ''usb_drive_trust'')"
    by code_simp
  from a b
    failure_aborts_whole_run [of "vault_env store_without_trust" test_drive_id
      test_trust_level now "connected store_without_trust" "NoSuchTable ''usb_drive_trust''"]
  show ?thesis by blast
qed


section \<open>Statements and the store\<close>

lemma map_of_put_table:
  "map_of (put_table n t s) m
     = (if m = n then map_option (\<lambda>u. t) (map_of s n) else map_of s m)"
  by (induction s) (auto simp: put_table_def)

lemma run_sql_insert:
  assumes "run_sql (InsertOrReplace n cols vals) s = Inr (rs, s')"
  obtains T where "map_of s n = Some T"
    and "rs = []"
    and "s' = put_table n
            (T\<lparr>t_rows := filter (\<lambda>old. \<not> conflicts T (new_row T cols vals) old) (t_rows T)
                          @ [new_row T cols vals]\<rparr>) s"
    and "set cols \<subseteq> set (col_names T)"
  using assms
  by (auto simp: find_None_iff split: option.splits if_splits)

lemma run_sql_select_store:
  "run_sql (Select cols n w ord lim) s = Inr (rs, s') \<Longrightarrow> s' = s"
  by (cases "map_of s n"; cases "find (\<lambda>c. c \<notin> set (col_names (the (map_of s n)))) (named_cols cols w ord)") auto

lemma run_sql_count_store:
  "run_sql (CountAll n) s = Inr (rs, s') \<Longrightarrow> s' = s"
  by (cases "map_of s n") auto

lemma store_after_select [simp]: "store_after (Select cols n w ord lim) s = s"
  by (cases "run_sql (Select cols n w ord lim) s")
     (auto simp: store_after_def simp del: run_sql.simps dest: run_sql_select_store)

lemma store_after_count [simp]: "store_after (CountAll n) s = s"
  by (cases "run_sql (CountAll n) s")
     (auto simp: store_after_def simp del: run_sql.simps dest: run_sql_count_store)

lemma bind_ok:
  assumes "failure (bind m k st) = None"
  obtains x st' where "m st = Returned x st'" and "failure (k x st') = None"
    and "final (bind m k st) = final (k x st')"
  using assms by (cases "m st") (auto simp: bind_def)

lemma seq_ok:
  assumes "failure (seq m k st) = None"
  obtains st' where "m st = Returned () st'" and "failure (k st') = None"
    and "final (seq m k st) = final (k st')"
  using assms by (cases "m st") (auto simp: seq_def bind_def)

lemma execute_ok:
  assumes "execute E q st = Returned rs st'"
  shows "accepts (db st) q \<and> db st' = store_after q (db st)
         \<and> rows_of q (db st) = Inr rs \<and> out st' = out st"
  using assms
  by (auto simp: execute_def Let_def accepts_def store_after_def rows_of_def
           split: option.splits sum.splits)

lemma commit_ok:
  assumes "commit E st = Returned x st'"
  shows "db st' = db st \<and> out st' = out st"
  using assms by (auto simp: commit_def Let_def split: option.splits)

lemma say_ok: "say m st = Returned x st' \<Longrightarrow> db st' = db st"
  by (auto simp: say_def)

lemma trust_check_ok:
  assumes "trust_check E d l t st = Returned x st'"
  shows "accepts (db st) (trust_insert d l t)"
    and "db st' = store_after (trust_insert d l t) (db st)"
  using assms
  by (auto simp: trust_check_def seq_def bind_def say_def select_by_drive_def
           split: outcome.splits option.splits if_splits
           dest!: execute_ok commit_ok)

lemma password_check_ok:
  assumes "password_check E d t st = Returned x st'"
  shows "accepts (db st) (password_insert d t)"
    and "db st' = store_after (password_insert d t) (db st)"
  using assms
  by (auto simp: password_check_def seq_def bind_def say_def fetchone_item_def item_def
           split: outcome.splits option.splits if_splits
           dest!: execute_ok commit_ok)

lemma verify_ok:
  assumes "failure (verify E d l t st) = None"
  shows "accepts (db st) (trust_insert d l t)"
    and "accepts (store_after (trust_insert d l t) (db st)) (password_insert d t)"
    and "db (final (verify E d l t st))
           = store_after (password_insert d t) (store_after (trust_insert d l t) (db st))"
proof -
  from assms obtain st1 where 1: "trust_check E d l t st = Returned () st1"
    and 2: "failure (password_check E d t st1) = None"
    and 3: "final (verify E d l t st) = final (password_check E d t st1)"
    unfolding verify_def by (rule seq_ok)
  from 2 obtain x st2 where 4: "password_check E d t st1 = Returned x st2"
    by (cases "password_check E d t st1") auto
  from trust_check_ok [OF 1] password_check_ok [OF 4] 3 4
  show "accepts (db st) (trust_insert d l t)"
    and "accepts (store_after (trust_insert d l t) (db st)) (password_insert d t)"
    and "db (final (verify E d l t st))
           = store_after (password_insert d t) (store_after (trust_insert d l t) (db st))"
    by simp_all
qed


lemma accepts_insert:
  assumes "accepts s (InsertOrReplace n cols vals)"
  obtains T where "map_of s n = Some T"
    and "store_after (InsertOrReplace n cols vals) s
           = put_table n
               (T\<lparr>t_rows := filter (\<lambda>old. \<not> conflicts T (new_row T cols vals) old) (t_rows T)
                             @ [new_row T cols vals]\<rparr>) s"
    and "set cols \<subseteq> set (col_names T)"
proof (cases "run_sql (InsertOrReplace n cols vals) s")
  case (Inl e)
  with assms show ?thesis by (simp add: accepts_def del: run_sql.simps)
next
  case (Inr p)
  obtain rs s' where p: "p = (rs, s')" by (cases p)
  from Inr p have r: "run_sql (InsertOrReplace n cols vals) s = Inr (rs, s')" by simp
  from r have sa: "store_after (InsertOrReplace n cols vals) s = s'"
    by (simp add: store_after_def del: run_sql.simps)
  from r show ?thesis
    by (rule run_sql_insert) (use sa that in blast)
qed

lemma table_after_insert:
  assumes "accepts s (InsertOrReplace n cols vals)" and "map_of s n = Some T"
  shows "map_of (store_after (InsertOrReplace n cols vals) s) m
           = (if m = n
              then Some (T\<lparr>t_rows := filter (\<lambda>old. \<not> conflicts T (new_row T cols vals) old)
                                            (t_rows T) @ [new_row T cols vals]\<rparr>)
              else map_of s m)"
    and "set cols \<subseteq> set (col_names T)"
proof -
  from assms(1) obtain T' where 1: "map_of s n = Some T'"
    and 2: "store_after (InsertOrReplace n cols vals) s
           = put_table n
               (T'\<lparr>t_rows := filter (\<lambda>old. \<not> conflicts T' (new_row T' cols vals) old) (t_rows T')
                             @ [new_row T' cols vals]\<rparr>) s"
    and 3: "set cols \<subseteq> set (col_names T')"
    by (rule accepts_insert)
  from 1 assms(2) have "T' = T" by simp
  with 1 2 3 show "map_of (store_after (InsertOrReplace n cols vals) s) m
           = (if m = n
              then Some (T\<lparr>t_rows := filter (\<lambda>old. \<not> conflicts T (new_row T cols vals) old)
                                            (t_rows T) @ [new_row T cols vals]\<rparr>)
              else map_of s m)"
    and "set cols \<subseteq> set (col_names T)"
    by (simp_all add: map_of_put_table)
qed

lemma rows_of_select:
  assumes "map_of s n = Some T" and "set (named_cols cols w ord) \<subseteq> set (col_names T)"
  shows "rows_of (Select cols n w ord lim) s = Inr (select_rows T cols w ord lim)"
proof -
  from assms(2) have "find (\<lambda>c. c \<notin> set (col_names T)) (named_cols cols w ord) = None"
    by (auto simp: find_None_iff)
  with assms(1) show ?thesis by (simp add: rows_of_def)
qed

lemma rows_of_count:
  "map_of s n = Some T \<Longrightarrow> rows_of (CountAll n) s = Inr [[Integer (int (length (t_rows T)))]]"
  by (simp add: rows_of_def)

lemma new_row_named:
  "map_of (zip cols vals) c = Some v \<Longrightarrow> v \<noteq> Null \<Longrightarrow> new_row T cols vals c = v"
  by (simp add: new_row_def given_row_def)

lemma conflicts_key:
  assumes "K \<in> set (key_sets T)" and "K \<noteq> []"
    and "\<forall>c \<in> set K. old c \<noteq> Null \<and> old c = new c"
  shows "conflicts T new old"
  using assms by (auto simp: conflicts_def agree_on_def list_ex_iff list_all_iff)



lemma insert_other_table:
  assumes "accepts s (InsertOrReplace n cols vals)" and "m \<noteq> n"
  shows "map_of (store_after (InsertOrReplace n cols vals) s) m = map_of s m"
proof -
  from assms(1) obtain T where "map_of s n = Some T" by (rule accepts_insert)
  with assms show ?thesis by (simp add: table_after_insert(1))
qed

lemma trust_insert_table:
  assumes "accepts s (trust_insert d l t)" and "map_of s ''usb_drive_trust'' = Some T"
  shows "map_of (store_after (trust_insert d l t) s) ''usb_drive_trust''
           = Some (T\<lparr>t_rows := filter (\<lambda>old. \<not> conflicts T (record_of T (trust_insert d l t)) old)
                                         (t_rows T) @ [record_of T (trust_insert d l t)]\<rparr>)"
    and "{''id'', ''user_id'', ''drive_id'', ''updated_at''} \<subseteq> set (col_names T)"
  using assms unfolding trust_insert_def
  by (auto simp: table_after_insert(1) dest: table_after_insert(2))

lemma password_insert_table:
  assumes "accepts s (password_insert d t)" and "map_of s ''usb_drive_passwords'' = Some T"
  shows "map_of (store_after (password_insert d t) s) ''usb_drive_passwords''
           = Some (T\<lparr>t_rows := filter (\<lambda>old. \<not> conflicts T (record_of T (password_insert d t)) old)
                                         (t_rows T) @ [record_of T (password_insert d t)]\<rparr>)"
    and "{''id'', ''user_id'', ''drive_id'', ''password_hint''} \<subseteq> set (col_names T)"
  using assms unfolding password_insert_def
  by (auto simp: table_after_insert(1) dest: table_after_insert(2))

lemma trust_insert_keeps:
  "accepts s (trust_insert d l t) \<Longrightarrow> m \<noteq> ''usb_drive_trust'' \<Longrightarrow>
   map_of (store_after (trust_insert d l t) s) m = map_of s m"
  unfolding trust_insert_def by (rule insert_other_table)

lemma password_insert_keeps:
  "accepts s (password_insert d t) \<Longrightarrow> m \<noteq> ''usb_drive_passwords'' \<Longrightarrow>
   map_of (store_after (password_insert d t) s) m = map_of s m"
  unfolding password_insert_def by (rule insert_other_table)

lemma password_record:
  "record_of T (password_insert d t) ''id'' = Text (''pwd_'' @ d)"
  "record_of T (password_insert d t) ''user_id'' = Text ''admin''"
  "record_of T (password_insert d t) ''drive_id'' = Text d"
  "record_of T (password_insert d t) ''password_hint'' = Text ''test hint''"
  by (simp_all add: password_insert_def new_row_named)


text \<open>
  C1, as stated, fails: the read is by \<open>drive_id\<close>, the replacement by the key. On a store
  whose \<open>usb_drive_passwords\<close> holds a row of another user for the drive \<open>usb_sde1\<close> the
  read after the commit returns two rows, and the first is not the one just written.
\<close>

theorem second_row_for_same_drive:
  "failure (verify (vault_env store_shared_drive) test_drive_id test_trust_level now
              (connected store_shared_drive)) = None
   \<and> rows_of (Select (Some [''id'', ''password_hint'']) ''usb_drive_passwords''
                (Some (''drive_id'', Text ''usb_sde1'')) None None)
        (db (final (verify (vault_env store_shared_drive) test_drive_id test_trust_level now
                      (connected store_shared_drive))))
       = Inr [[Text ''pwd_old'', Text ''old hint''], [Text ''pwd_usb_sde1'', Text ''test hint'']]"
  by code_simp

text \<open>
  C1, amended. Let the verifier run without failure on a store in which \<open>id\<close> is a key of
  \<open>usb_drive_passwords\<close> and every row of that table for the drive has the id
  \<open>pwd_\<close> followed by the drive identifier. Then the read by \<open>drive_id\<close> in the same
  connection returns exactly one row, the inserted record, and its \<open>password_hint\<close> is
  \<open>test hint\<close>.
\<close>

theorem write_then_read_passwords:
  assumes ok: "failure (verify E drive level ts (connected s)) = None"
    and tbl: "map_of s ''usb_drive_passwords'' = Some T"
    and key: "[''id''] \<in> set (key_sets T)"
    and others: "\<forall>r \<in> set (t_rows T).
                   r ''drive_id'' = Text drive \<longrightarrow> r ''id'' = Text (''pwd_'' @ drive)"
  shows "rows_of (select_by_drive ''usb_drive_passwords'' drive)
           (db (final (verify E drive level ts (connected s))))
         = Inr [map (record_of T (password_insert drive ts)) (col_names T)]
       \<and> rows_of (Select (Some [''password_hint'']) ''usb_drive_passwords''
                    (Some (''drive_id'', Text drive)) None None)
           (db (final (verify E drive level ts (connected s))))
         = Inr [[Text ''test hint'']]"
proof -
  let ?q1 = "trust_insert drive level ts" and ?q2 = "password_insert drive ts"
  let ?new = "record_of T ?q2"
  let ?kept = "filter (\<lambda>old. \<not> conflicts T ?new old) (t_rows T)"
  let ?T' = "T\<lparr>t_rows := ?kept @ [?new]\<rparr>"
  let ?s2 = "db (final (verify E drive level ts (connected s)))"
  have dbs: "db (connected s) = s" by (simp add: connected_def initial_def)
  from verify_ok [OF ok] dbs
  have a1: "accepts s ?q1" and a2: "accepts (store_after ?q1 s) ?q2"
    and fin: "?s2 = store_after ?q2 (store_after ?q1 s)"
    by simp_all
  from a1 tbl have "map_of (store_after ?q1 s) ''usb_drive_passwords'' = Some T"
    by (simp add: trust_insert_keeps)
  from password_insert_table [OF a2 this] fin
  have t2: "map_of ?s2 ''usb_drive_passwords'' = Some ?T'"
    and cols: "{''id'', ''user_id'', ''drive_id'', ''password_hint''} \<subseteq> set (col_names T)"
    by simp_all
  have none: "filter (\<lambda>r. r ''drive_id'' \<noteq> Null \<and> r ''drive_id'' = Text drive) ?kept = []"
  proof -
    have "\<not> (r ''drive_id'' \<noteq> Null \<and> r ''drive_id'' = Text drive)" if r: "r \<in> set ?kept" for r
    proof
      assume "r ''drive_id'' \<noteq> Null \<and> r ''drive_id'' = Text drive"
      with r others have "r ''id'' = Text (''pwd_'' @ drive)" by auto
      then have "\<forall>c \<in> set [''id'']. r c \<noteq> Null \<and> r c = ?new c"
        by (simp add: password_record)
      from conflicts_key [OF key _ this] have "conflicts T ?new r" by simp
      with r show False by simp
    qed
    then show ?thesis unfolding filter_empty_conv by blast
  qed
  have sel: "filter (\<lambda>r. r ''drive_id'' \<noteq> Null \<and> r ''drive_id'' = Text drive) (t_rows ?T')
               = [?new]"
    using none by (simp add: password_record)
  have "rows_of (select_by_drive ''usb_drive_passwords'' drive) ?s2
          = Inr (select_rows ?T' None (Some (''drive_id'', Text drive)) None None)"
    unfolding select_by_drive_def using t2 cols
    by (intro rows_of_select) (simp_all add: named_cols_def col_names_def)
  moreover have "rows_of (Select (Some [''password_hint'']) ''usb_drive_passwords''
                    (Some (''drive_id'', Text drive)) None None) ?s2
          = Inr (select_rows ?T' (Some [''password_hint'']) (Some (''drive_id'', Text drive))
                   None None)"
    using t2 cols by (intro rows_of_select) (simp_all add: named_cols_def col_names_def)
  ultimately show ?thesis
    using sel by (simp add: select_rows_def col_names_def password_record)
qed

theorem write_then_read_passwords_witness:
  "failure (verify (vault_env store_seeded) test_drive_id test_trust_level now
              (connected store_seeded)) = None
   \<and> rows_of (Select (Some [''password_hint'']) ''usb_drive_passwords''
                (Some (''drive_id'', Text test_drive_id)) None None) store_seeded
       = Inr [[Text ''stale hint'']]
   \<and> rows_of (Select (Some [''password_hint'']) ''usb_drive_passwords''
                (Some (''drive_id'', Text test_drive_id)) None None)
        (db (final (verify (vault_env store_seeded) test_drive_id test_trust_level now
                      (connected store_seeded))))
       = Inr [[Text ''test hint'']]"
proof -
  have a: "failure (verify (vault_env store_seeded) test_drive_id test_trust_level now
              (connected store_seeded)) = None"
    by code_simp
  have b: "map_of store_seeded ''usb_drive_passwords'' = Some (passwords_table [stale_password])"
    by (simp add: store_seeded_def)
  have c: "[''id''] \<in> set (key_sets (passwords_table [stale_password]))"
    by (simp add: key_sets_def passwords_table_def key_col_def text_col_def)
  have d: "\<forall>r \<in> set (t_rows (passwords_table [stale_password])).
             r ''drive_id'' = Text test_drive_id \<longrightarrow> r ''id'' = Text (''pwd_'' @ test_drive_id)"
    by (simp add: passwords_table_def stale_password_def mk_row_def test_drive_id_def)
  have e: "rows_of (Select (Some [''password_hint'']) ''usb_drive_passwords''
                (Some (''drive_id'', Text test_drive_id)) None None) store_seeded
       = Inr [[Text ''stale hint'']]"
    by code_simp
  from a e write_then_read_passwords [OF a b c d] show ?thesis by (simp only: simp_thms)
qed


lemma count_rows_shape:
  "rows_of (CountAll n) s = Inr rs \<Longrightarrow> rs = [[Integer (int (length (table_rows s n)))]]"
  by (cases "map_of s n") (auto simp: rows_of_def table_rows_def)

lemma password_check_out:
  assumes "password_check E d t st = Returned x st'"
  shows "out st' = out st @ [InsertedPassword, DatabaseStatus,
           TrustEntries (Integer (int (length (table_rows (db st') ''usb_drive_trust'')))),
           PasswordEntries (Integer (int (length (table_rows (db st') ''usb_drive_passwords''))))]"
  using assms
  by (auto simp: password_check_def seq_def bind_def say_def fetchone_item_def item_def
                 fetchone_def
           split: outcome.splits option.splits if_splits list.splits
           dest!: execute_ok commit_ok count_rows_shape)

lemma verify_out:
  assumes "failure (verify E d l t st) = None"
  shows "take 3 (rev (out (final (verify E d l t st))))
           = [PasswordEntries (Integer (int (length
                 (table_rows (db (final (verify E d l t st))) ''usb_drive_passwords'')))),
              TrustEntries (Integer (int (length
                 (table_rows (db (final (verify E d l t st))) ''usb_drive_trust'')))),
              DatabaseStatus]"
proof -
  from assms obtain st1 where 2: "failure (password_check E d t st1) = None"
    and 3: "final (verify E d l t st) = final (password_check E d t st1)"
    unfolding verify_def by (rule seq_ok)
  from 2 obtain x st2 where 4: "password_check E d t st1 = Returned x st2"
    by (cases "password_check E d t st1") auto
  from password_check_out [OF 4] 3 4 show ?thesis by simp
qed

text \<open>
  C4, as stated, fails: an insert that replaces a row does not change the count. On a store
  that already holds the rows \<open>trust_usb_sde1\<close> and \<open>pwd_usb_sde1\<close> (as after an earlier
  run of the script) both counts are 1 before and 1 after.
\<close>

theorem counts_unchanged_on_replace:
  "rows_of (CountAll ''usb_drive_trust'') store_seeded = Inr [[Integer 1]]
   \<and> rows_of (CountAll ''usb_drive_passwords'') store_seeded = Inr [[Integer 1]]
   \<and> drop 3 (out (final (test_trust_levels (vault_env store_seeded))))
       = [DatabaseStatus, TrustEntries (Integer 1), PasswordEntries (Integer 1)]
   \<and> rows_of (CountAll ''usb_drive_trust'')
        (durable (final (test_trust_levels (vault_env store_seeded)))) = Inr [[Integer 1]]
   \<and> rows_of (CountAll ''usb_drive_passwords'')
        (durable (final (test_trust_levels (vault_env store_seeded)))) = Inr [[Integer 1]]"
  by code_simp

text \<open>
  C4, amended. Let the verifier run without failure on a store in which no row of
  \<open>usb_drive_trust\<close> conflicts with the inserted trust record and no row of
  \<open>usb_drive_passwords\<close> conflicts with the inserted password record. Then \<open>COUNT(*)\<close> on
  each table is its value before the run plus one, and these are the counts printed.
\<close>

theorem counts_grow_by_one:
  assumes ok: "failure (verify E drive level ts (connected s)) = None"
    and t1: "map_of s ''usb_drive_trust'' = Some T1"
    and t2: "map_of s ''usb_drive_passwords'' = Some T2"
    and n1: "\<forall>r \<in> set (t_rows T1). \<not> conflicts T1 (record_of T1 (trust_insert drive level ts)) r"
    and n2: "\<forall>r \<in> set (t_rows T2). \<not> conflicts T2 (record_of T2 (password_insert drive ts)) r"
  shows "rows_of (CountAll ''usb_drive_trust'') s = Inr [[Integer (int (length (t_rows T1)))]]
       \<and> rows_of (CountAll ''usb_drive_passwords'') s = Inr [[Integer (int (length (t_rows T2)))]]
       \<and> rows_of (CountAll ''usb_drive_trust'') (db (final (verify E drive level ts (connected s))))
           = Inr [[Integer (int (length (t_rows T1)) + 1)]]
       \<and> rows_of (CountAll ''usb_drive_passwords'')
            (db (final (verify E drive level ts (connected s))))
           = Inr [[Integer (int (length (t_rows T2)) + 1)]]
       \<and> take 3 (rev (out (final (verify E drive level ts (connected s)))))
           = [PasswordEntries (Integer (int (length (t_rows T2)) + 1)),
              TrustEntries (Integer (int (length (t_rows T1)) + 1)),
              DatabaseStatus]"
proof -
  let ?q1 = "trust_insert drive level ts" and ?q2 = "password_insert drive ts"
  let ?s1 = "store_after ?q1 s"
  let ?s2 = "db (final (verify E drive level ts (connected s)))"
  have dbs: "db (connected s) = s" by (simp add: connected_def initial_def)
  from verify_ok [OF ok] dbs
  have a1: "accepts s ?q1" and a2: "accepts ?s1 ?q2" and fin: "?s2 = store_after ?q2 ?s1"
    by simp_all
  from n1 have k1: "filter (\<lambda>old. \<not> conflicts T1 (record_of T1 ?q1) old) (t_rows T1) = t_rows T1"
    by (simp add: filter_id_conv)
  from n2 have k2: "filter (\<lambda>old. \<not> conflicts T2 (record_of T2 ?q2) old) (t_rows T2) = t_rows T2"
    by (simp add: filter_id_conv)
  from trust_insert_table(1) [OF a1 t1] k1
  have u1: "map_of ?s1 ''usb_drive_trust'' = Some (T1\<lparr>t_rows := t_rows T1 @ [record_of T1 ?q1]\<rparr>)"
    by simp
  from a1 t2 have "map_of ?s1 ''usb_drive_passwords'' = Some T2"
    by (simp add: trust_insert_keeps)
  from password_insert_table(1) [OF a2 this] k2 fin
  have u2: "map_of ?s2 ''usb_drive_passwords''
              = Some (T2\<lparr>t_rows := t_rows T2 @ [record_of T2 ?q2]\<rparr>)"
    by simp
  from a2 u1 fin
  have u3: "map_of ?s2 ''usb_drive_trust'' = Some (T1\<lparr>t_rows := t_rows T1 @ [record_of T1 ?q1]\<rparr>)"
    by (simp add: password_insert_keeps)
  from u2 u3 have l: "length (table_rows ?s2 ''usb_drive_trust'') = length (t_rows T1) + 1"
      "length (table_rows ?s2 ''usb_drive_passwords'') = length (t_rows T2) + 1"
    by (simp_all add: table_rows_def)
  from t1 t2 u2 u3 l verify_out [OF ok] show ?thesis
    by (simp add: rows_of_count)
qed

theorem counts_grow_by_one_witness:
  "failure (verify (vault_env store_shared_drive) test_drive_id test_trust_level now
              (connected store_shared_drive)) = None
   \<and> rows_of (CountAll ''usb_drive_trust'') store_shared_drive = Inr [[Integer 0]]
   \<and> rows_of (CountAll ''usb_drive_passwords'') store_shared_drive = Inr [[Integer 1]]
   \<and> rows_of (CountAll ''usb_drive_trust'')
        (db (final (verify (vault_env store_shared_drive) test_drive_id test_trust_level now
                      (connected store_shared_drive)))) = Inr [[Integer 1]]
   \<and> rows_of (CountAll ''usb_drive_passwords'')
        (db (final (verify (vault_env store_shared_drive) test_drive_id test_trust_level now
                      (connected store_shared_drive)))) = Inr [[Integer 2]]"
proof -
  let ?T1 = "trust_table []" and ?T2 = "passwords_table [other_user_password]"
  have a: "failure (verify (vault_env store_shared_drive) test_drive_id test_trust_level now
              (connected store_shared_drive)) = None"
    by code_simp
  have b: "map_of store_shared_drive ''usb_drive_trust'' = Some ?T1"
    by (simp add: store_shared_drive_def)
  have c: "map_of store_shared_drive ''usb_drive_passwords'' = Some ?T2"
    by (simp add: store_shared_drive_def)
  have d: "\<forall>r \<in> set (t_rows ?T1).
             \<not> conflicts ?T1 (record_of ?T1 (trust_insert test_drive_id test_trust_level now)) r"
    by (simp add: trust_table_def)
  have "list_all (\<lambda>r. \<not> conflicts ?T2 (record_of ?T2 (password_insert test_drive_id now)) r)
          (t_rows ?T2)"
    by code_simp
  then have e: "\<forall>r \<in> set (t_rows ?T2).
             \<not> conflicts ?T2 (record_of ?T2 (password_insert test_drive_id now)) r"
    by (simp only: list_all_iff)
  have l: "int (length (t_rows ?T1)) = 0" "int (length (t_rows ?T2)) = 1"
    by (simp_all add: trust_table_def passwords_table_def)
  from counts_grow_by_one [OF a b c d e] a show ?thesis
    by (simp add: l)
qed

lemma key_sets_rows [simp]: "key_sets (T\<lparr>t_rows := rs\<rparr>) = key_sets T"
  by (simp add: key_sets_def)

lemma conflicts_rows [simp]: "conflicts (T\<lparr>t_rows := rs\<rparr>) = conflicts T"
  by (simp add: conflicts_def fun_eq_iff)

lemma given_row_rows [simp]: "given_row (T\<lparr>t_rows := rs\<rparr>) = given_row T"
  by (intro ext) (simp add: given_row_def cong: option.case_cong)

lemma new_row_rows [simp]: "new_row (T\<lparr>t_rows := rs\<rparr>) = new_row T"
  by (intro ext) (simp add: new_row_def cong: option.case_cong if_cong)

lemma record_of_rows [simp]: "record_of (T\<lparr>t_rows := rs\<rparr>) q = record_of T q"
  by (cases q) simp_all

lemma col_names_rows [simp]: "col_names (T\<lparr>t_rows := rs\<rparr>) = col_names T"
  by (simp add: col_names_def)







section \<open>The schema report\<close>













































section \<open>The report and the ciphertext\<close>

















































end
